theory Spec2Isabelle
  imports Main "HOL-Library.AList"
begin

section \<open>Go runtime behaviour made explicit\<close>

text \<open>
  The transformers of \<^verbatim>\<open>pkg/reconciler/common/transformers.go\<close> mutate their
  argument in place and return an \<^verbatim>\<open>error\<close>; some of their statements (an unchecked
  type assertion, an index expression) panic at run time. A call therefore either
  returns, with the state it leaves behind, or panics.
\<close>

datatype 'a exec = Returns 'a | Panics

section \<open>The functions of package strings that the source calls\<close>

text \<open>
  A Go string is a byte sequence, here a \<^typ>\<open>string\<close>. \<^verbatim>\<open>strings.ToLower\<close> is modelled
  on the ASCII letters; bytes outside \<^verbatim>\<open>A-Z\<close> are kept.
\<close>

definition upper_lower :: "(char \<times> char) list" where
  "upper_lower = zip ''ABCDEFGHIJKLMNOPQRSTUVWXYZ'' ''abcdefghijklmnopqrstuvwxyz''"

definition ToLower_char :: "char \<Rightarrow> char" where
  "ToLower_char c = (case map_of upper_lower c of Some l \<Rightarrow> l | None \<Rightarrow> c)"

definition ToLower :: "string \<Rightarrow> string" where
  "ToLower s = map ToLower_char s"

text \<open>\<^verbatim>\<open>strings.ReplaceAll(s, old, new)\<close> for one-byte \<^verbatim>\<open>old\<close> and \<^verbatim>\<open>new\<close>.\<close>

definition ReplaceAll :: "string \<Rightarrow> char \<Rightarrow> char \<Rightarrow> string" where
  "ReplaceAll s old new = map (\<lambda>c. if c = old then new else c) s"

text \<open>
  \<^verbatim>\<open>strings.Split(s, sep)\<close> for a one-byte separator: the pieces between the
  separators, one more than there are separators, so never an empty slice.
\<close>

fun Split :: "string \<Rightarrow> char \<Rightarrow> string list" where
  "Split [] sep = [[]]"
| "Split (c # cs) sep =
     (if c = sep then [] # Split cs sep
      else (case Split cs sep of
              [] \<Rightarrow> [[c]]
            | w # ws \<Rightarrow> (c # w) # ws))"

definition HasPrefix :: "string \<Rightarrow> string \<Rightarrow> bool" where
  "HasPrefix s p = (take (length p) s = p)"

definition TrimPrefix :: "string \<Rightarrow> string \<Rightarrow> string" where
  "TrimPrefix s p = (if HasPrefix s p then drop (length p) s else s)"

section \<open>Key normalisation and argument splitting\<close>

definition ArgPrefix :: string where
  "ArgPrefix = ''arg_''"

definition ParamPrefix :: string where
  "ParamPrefix = ''param_''"

definition formKey :: "string \<Rightarrow> string \<Rightarrow> string" where
  "formKey prefix arg =
     (let argument = ToLower arg;
          argument = (if prefix \<noteq> [] then prefix @ argument else argument)
      in ReplaceAll argument CHR ''-'' CHR ''_'')"

definition splitsByEqual :: "string \<Rightarrow> string list \<times> bool" where
  "splitsByEqual arg =
     (let values = Split arg CHR ''=''
      in if length values = 2 then (values, True) else (values, False))"

section \<open>Container images and arguments\<close>

text \<open>
  Of \<^verbatim>\<open>corev1.Container\<close> the source reads and writes \<^verbatim>\<open>Name\<close>, \<^verbatim>\<open>Image\<close> and
  \<^verbatim>\<open>Args\<close>; the other fields of the struct are the record's extension.
\<close>

record Container =
  Name :: string
  Image :: string
  Args :: "string list"

text \<open>
  The loop \<^verbatim>\<open>for a, arg := range container.Args\<close>: \<open>a\<close> is the index, \<open>args\<close> the
  slice as the earlier iterations left it (an iteration reads the element that the one
  before it may have overwritten). \<^verbatim>\<open>container.Args[a+1] = url\<close> panics when
  \<open>a + 1\<close> is not an index of the slice.
\<close>

function args_loop :: "(string \<rightharpoonup> string) \<Rightarrow> nat \<Rightarrow> string list \<Rightarrow> string list exec" where
  "args_loop images a args =
     (if a < length args then
        (let arg = args ! a;
             argVal = fst (splitsByEqual arg);
             hasArg = snd (splitsByEqual arg)
         in if hasArg then
              (case images (formKey ArgPrefix (argVal ! 0)) of
                 Some url \<Rightarrow> args_loop images (Suc a) (args[a := argVal ! 0 @ ''='' @ url])
               | None \<Rightarrow> args_loop images (Suc a) args)
            else
              (case images (formKey ArgPrefix arg) of
                 Some url \<Rightarrow>
                   (if Suc a < length args
                    then args_loop images (Suc a) (args[Suc a := url])
                    else Panics)
               | None \<Rightarrow> args_loop images (Suc a) args))
      else Returns args)"
  by pat_completeness auto
termination
  by (relation "measure (\<lambda>(images, a, args). length args - a)") auto

declare args_loop.simps [simp del]

definition replaceContainersArgsImage ::
  "'a Container_scheme \<Rightarrow> (string \<rightharpoonup> string) \<Rightarrow> 'a Container_scheme exec" where
  "replaceContainersArgsImage container images =
     (case args_loop images 0 (Args container) of
        Panics \<Rightarrow> Panics
      | Returns args \<Rightarrow> Returns (container\<lparr>Args := args\<rparr>))"


text \<open>
  The loop \<^verbatim>\<open>for i, container := range containers\<close>: \<^verbatim>\<open>container\<close> is a copy
  of the element, taken before \<^verbatim>\<open>containers[i].Image\<close> is written, but its
  \<^verbatim>\<open>Args\<close> slice shares the element's backing array, so the element ends with the new
  image and the rewritten arguments.
\<close>

fun replaceContainerImages ::
  "'a Container_scheme list \<Rightarrow> (string \<rightharpoonup> string) \<Rightarrow> 'a Container_scheme list exec" where
  "replaceContainerImages [] images = Returns []"
| "replaceContainerImages (container # containers) images =
     (let name = formKey [] (Name container);
          element = (case images name of
                       Some url \<Rightarrow> container\<lparr>Image := url\<rparr>
                     | None \<Rightarrow> container)
      in case replaceContainersArgsImage container images of
           Panics \<Rightarrow> Panics
         | Returns container' \<Rightarrow>
             (case replaceContainerImages containers images of
                Panics \<Rightarrow> Panics
              | Returns rest \<Rightarrow> Returns (element\<lparr>Args := Args container'\<rparr> # rest)))"

section \<open>Documents\<close>

text \<open>
  The content of an \<^verbatim>\<open>unstructured.Unstructured\<close> is a \<^verbatim>\<open>map[string]interface{}\<close>
  holding JSON values. A Go map becomes an association list read with \<^const>\<open>map_of\<close>
  and written with \<^const>\<open>AList.update\<close>.
\<close>

datatype jvalue =
    JNull
  | JBool bool
  | JNumber int
  | JString string
  | JSlice "jvalue list"
  | JMap "(string \<times> jvalue) list"

type_synonym object = "(string \<times> jvalue) list"

datatype error =
    AccessorError "string list"
  | CannotSet "string list"
  | LibraryError string

text \<open>
  A transformer (\<^verbatim>\<open>mf.Transformer\<close>) receives a pointer to a document, may write
  through it, and returns an error or \<^verbatim>\<open>nil\<close>: the result is the document as the
  call leaves it, with the error.
\<close>

type_synonym Transformer = "object \<Rightarrow> (object \<times> error option) exec"

subsection \<open>The accessors of package unstructured that the source calls\<close>

fun nested_walk :: "jvalue \<Rightarrow> string list \<Rightarrow> string list \<Rightarrow> jvalue \<times> bool \<times> error option" where
  "nested_walk val seen [] = (val, True, None)"
| "nested_walk val seen (field # flds) =
     (case val of
        JNull \<Rightarrow> (JNull, False, None)
      | JMap m \<Rightarrow>
          (case map_of m field of
             None \<Rightarrow> (JNull, False, None)
           | Some v \<Rightarrow> nested_walk v (seen @ [field]) flds)
      | _ \<Rightarrow> (JNull, False, Some (AccessorError (seen @ [field]))))"

definition NestedFieldNoCopy :: "object \<Rightarrow> string list \<Rightarrow> jvalue \<times> bool \<times> error option" where
  "NestedFieldNoCopy obj flds = nested_walk (JMap obj) [] flds"

definition NestedSlice :: "object \<Rightarrow> string list \<Rightarrow> jvalue list \<times> bool \<times> error option" where
  "NestedSlice obj flds =
     (case NestedFieldNoCopy obj flds of
        (val, found, err) \<Rightarrow>
          if \<not> found \<or> err \<noteq> None then ([], found, err)
          else (case val of
                  JSlice xs \<Rightarrow> (xs, True, None)
                | _ \<Rightarrow> ([], False, Some (AccessorError flds))))"

definition NestedString :: "object \<Rightarrow> string list \<Rightarrow> string \<times> bool \<times> error option" where
  "NestedString obj flds =
     (case NestedFieldNoCopy obj flds of
        (val, found, err) \<Rightarrow>
          if \<not> found \<or> err \<noteq> None then ([], found, err)
          else (case val of
                  JString s \<Rightarrow> (s, True, None)
                | _ \<Rightarrow> ([], False, Some (AccessorError flds))))"

definition GetKind :: "object \<Rightarrow> string" where
  "GetKind u =
     (case NestedString u [''kind''] of
        (val, found, err) \<Rightarrow> if \<not> found \<or> err \<noteq> None then [] else val)"

text \<open>
  \<^verbatim>\<open>NestedStringMap\<close> gives up on the first value that is not a string, and
  \<^verbatim>\<open>GetAnnotations\<close> then returns the nil map, which reads as the empty one.
\<close>

fun string_entries :: "(string \<times> jvalue) list \<Rightarrow> (string \<times> string) list option" where
  "string_entries [] = Some []"
| "string_entries ((k, v) # kvs) =
     (case v of
        JString str \<Rightarrow> map_option ((#) (k, str)) (string_entries kvs)
      | _ \<Rightarrow> None)"

definition NestedStringMap :: "object \<Rightarrow> string list \<Rightarrow> (string \<rightharpoonup> string) \<times> bool \<times> error option" where
  "NestedStringMap obj flds =
     (case NestedFieldNoCopy obj flds of
        (val, found, err) \<Rightarrow>
          if \<not> found \<or> err \<noteq> None then (Map.empty, found, err)
          else (case val of
                  JMap m \<Rightarrow>
                    (case string_entries m of
                       Some strMap \<Rightarrow> (map_of strMap, True, None)
                     | None \<Rightarrow> (Map.empty, False, Some (AccessorError flds)))
                | _ \<Rightarrow> (Map.empty, False, Some (AccessorError flds))))"

definition GetAnnotations :: "object \<Rightarrow> (string \<rightharpoonup> string)" where
  "GetAnnotations u = fst (NestedStringMap u [''metadata'', ''annotations''])"

text \<open>
  \<^verbatim>\<open>SetNestedField\<close> walks the maps along all fields but the last, creating the
  missing ones, and stores the value under the last field. It fails, before any write,
  on a field that holds something other than a map.
\<close>

fun set_walk :: "object \<Rightarrow> jvalue \<Rightarrow> string list \<Rightarrow> string list \<Rightarrow> error + object" where
  "set_walk m v seen [] = Inr m"
| "set_walk m v seen [field] = Inr (AList.update field v m)"
| "set_walk m v seen (field # flds) =
     (case map_of m field of
        Some (JMap valMap) \<Rightarrow>
          (case set_walk valMap v (seen @ [field]) flds of
             Inl e \<Rightarrow> Inl e
           | Inr valMap' \<Rightarrow> Inr (AList.update field (JMap valMap') m))
      | Some _ \<Rightarrow> Inl (CannotSet (seen @ [field]))
      | None \<Rightarrow>
          (case set_walk [] v (seen @ [field]) flds of
             Inl e \<Rightarrow> Inl e
           | Inr newVal \<Rightarrow> Inr (AList.update field (JMap newVal) m)))"

definition SetNestedField :: "object \<Rightarrow> jvalue \<Rightarrow> string list \<Rightarrow> object \<times> error option" where
  "SetNestedField obj v flds =
     (case set_walk obj v [] flds of
        Inl e \<Rightarrow> (obj, Some e)
      | Inr obj' \<Rightarrow> (obj', None))"

text \<open>
  A write through a map obtained with \<^verbatim>\<open>NestedFieldNoCopy\<close> is a write into the
  document: \<open>replace_at val flds new\<close> is \<open>val\<close> with \<open>new\<close> in the place that
  \<open>flds\<close> leads to.
\<close>

fun replace_at :: "jvalue \<Rightarrow> string list \<Rightarrow> jvalue \<Rightarrow> jvalue" where
  "replace_at val [] new = new"
| "replace_at val (field # flds) new =
     (case val of
        JMap m \<Rightarrow>
          (case map_of m field of
             Some v \<Rightarrow> JMap (AList.update field (replace_at v flds new) m)
           | None \<Rightarrow> val)
      | _ \<Rightarrow> val)"

definition write_through :: "object \<Rightarrow> string list \<Rightarrow> jvalue \<Rightarrow> object" where
  "write_through obj flds new =
     (case replace_at (JMap obj) flds new of JMap obj' \<Rightarrow> obj' | _ \<Rightarrow> obj)"

section \<open>The common transformers\<close>

definition AnnotationPreserveNS :: string where
  "AnnotationPreserveNS = ''operator.tekton.dev/preserve-namespace''"

text \<open>
  \<^verbatim>\<open>mf.InjectNamespace\<close> belongs to the manifestival library: it is the parameter
  \<open>InjectNamespace\<close>.
\<close>

definition injectNamespaceConditional ::
  "(string \<Rightarrow> Transformer) \<Rightarrow> string \<Rightarrow> string \<Rightarrow> Transformer" where
  "injectNamespaceConditional InjectNamespace preserveNamespace targetNamespace =
     (let tf = InjectNamespace targetNamespace
      in (\<lambda>u.
            let annotations = GetAnnotations u
            in case annotations preserveNamespace of
                 Some val \<Rightarrow> if val = ''true'' then Returns (u, None) else tf u
               | None \<Rightarrow> tf u))"

definition webhook_service_path :: "string list" where
  "webhook_service_path = [''spec'', ''conversion'', ''webhookClientConfig'', ''service'']"

text \<open>
  \<^verbatim>\<open>service.(map[string]interface{})\<close> has no second result: it panics on a value
  that is not a map.
\<close>

definition injectNamespaceCRDWebhookClientConfig :: "string \<Rightarrow> Transformer" where
  "injectNamespaceCRDWebhookClientConfig targetNamespace u =
     (let kind = ToLower (GetKind u)
      in if kind \<noteq> ''customresourcedefinition'' then Returns (u, None)
         else (case NestedFieldNoCopy u webhook_service_path of
                 (service, found, err) \<Rightarrow>
                   if \<not> found \<or> err \<noteq> None then Returns (u, err)
                   else (case service of
                           JMap m \<Rightarrow>
                             (if map_of m ''namespace'' \<noteq> None
                              then Returns
                                     (write_through u webhook_service_path
                                        (JMap (AList.update ''namespace'' (JString targetNamespace) m)),
                                      None)
                              else Returns (u, None))
                         | _ \<Rightarrow> Panics)))"

section \<open>The override table from the environment\<close>

text \<open>
  \<^verbatim>\<open>os.Environ()\<close> is the argument \<open>environ\<close>. \<^verbatim>\<open>keyValue[1]\<close> panics on an
  entry without \<^verbatim>\<open>=\<close>.
\<close>

fun ImagesFromEnv_loop ::
  "string list \<Rightarrow> string \<Rightarrow> (string \<rightharpoonup> string) \<Rightarrow> (string \<rightharpoonup> string) exec" where
  "ImagesFromEnv_loop [] prefix images = Returns images"
| "ImagesFromEnv_loop (env # envs) prefix images =
     (if \<not> HasPrefix env prefix then ImagesFromEnv_loop envs prefix images
      else (let keyValue = Split env CHR ''='';
                name = TrimPrefix (keyValue ! 0) prefix
            in if 1 < length keyValue
               then (let url = keyValue ! 1
                     in ImagesFromEnv_loop envs prefix (images(name \<mapsto> url)))
               else Panics))"

definition ImagesFromEnv :: "string list \<Rightarrow> string \<Rightarrow> (string \<rightharpoonup> string) exec" where
  "ImagesFromEnv environ prefix = ImagesFromEnv_loop environ prefix Map.empty"

section \<open>Deployment images\<close>

text \<open>
  Of \<^verbatim>\<open>appsv1.Deployment\<close> the source touches \<^verbatim>\<open>Spec.Template.Spec.Containers\<close>,
  the field \<open>Containers\<close>; the rest of the struct is the record's extension. The two
  directions of \<^verbatim>\<open>runtime.DefaultUnstructuredConverter\<close> are the parameters
  \<open>FromUnstructured\<close> and \<open>ToUnstructured\<close>.
\<close>

record 'c Deployment =
  Containers :: "'c Container_scheme list"

definition DeploymentImages ::
  "(object \<Rightarrow> error + ('c, 'd) Deployment_scheme) \<Rightarrow>
   (('c, 'd) Deployment_scheme \<Rightarrow> error + object) \<Rightarrow>
   (string \<rightharpoonup> string) \<Rightarrow> Transformer" where
  "DeploymentImages FromUnstructured ToUnstructured images u =
     (if GetKind u \<noteq> ''Deployment'' then Returns (u, None)
      else (case FromUnstructured u of
              Inl err \<Rightarrow> Returns (u, Some err)
            | Inr d \<Rightarrow>
                (case replaceContainerImages (Containers d) images of
                   Panics \<Rightarrow> Panics
                 | Returns containers \<Rightarrow>
                     (case ToUnstructured (d\<lparr>Containers := containers\<rparr>) of
                        Inl err \<Rightarrow> Returns (u, Some err)
                      | Inr unstrObj \<Rightarrow> Returns (unstrObj, None)))))"

section \<open>Task images\<close>

text \<open>
  \<^verbatim>\<open>s.(map[string]interface{})\<close> panics on a step that is not a map;
  \<^verbatim>\<open>step["name"].(string)\<close> has a second result and does not. The lines written with
  \<^verbatim>\<open>log.Println\<close> are left out.
\<close>

fun replaceStepsImages :: "jvalue list \<Rightarrow> (string \<rightharpoonup> string) \<Rightarrow> jvalue list exec" where
  "replaceStepsImages [] override = Returns []"
| "replaceStepsImages (s # steps) override =
     (case s of
        JMap step \<Rightarrow>
          (let s' = (case map_of step ''name'' of
                       Some (JString name) \<Rightarrow>
                         (case override (formKey [] name) of
                            Some img \<Rightarrow>
                              if img = [] then s
                              else JMap (AList.update ''image'' (JString img) step)
                          | None \<Rightarrow> s)
                     | _ \<Rightarrow> s)
           in case replaceStepsImages steps override of
                Panics \<Rightarrow> Panics
              | Returns rest \<Rightarrow> Returns (s' # rest))
      | _ \<Rightarrow> Panics)"

fun replaceParamsImage :: "jvalue list \<Rightarrow> (string \<rightharpoonup> string) \<Rightarrow> jvalue list exec" where
  "replaceParamsImage [] override = Returns []"
| "replaceParamsImage (p # params) override =
     (case p of
        JMap param \<Rightarrow>
          (let p' = (case map_of param ''name'' of
                       Some (JString name) \<Rightarrow>
                         (case override (formKey ParamPrefix name) of
                            Some img \<Rightarrow>
                              if img = [] then p
                              else JMap (AList.update ''default'' (JString img) param)
                          | None \<Rightarrow> p)
                     | _ \<Rightarrow> p)
           in case replaceParamsImage params override of
                Panics \<Rightarrow> Panics
              | Returns rest \<Rightarrow> Returns (p' # rest))
      | _ \<Rightarrow> Panics)"

definition TaskImages :: "(string \<rightharpoonup> string) \<Rightarrow> Transformer" where
  "TaskImages images u =
     (if GetKind u \<noteq> ''ClusterTask'' then Returns (u, None)
      else (case NestedSlice u [''spec'', ''steps''] of
        (steps, found, err) \<Rightarrow>
          if err \<noteq> None then Returns (u, err)
          else if \<not> found then Returns (u, None)
          else (case replaceStepsImages steps images of
            Panics \<Rightarrow> Panics
          | Returns steps' \<Rightarrow>
              (case SetNestedField u (JSlice steps') [''spec'', ''steps''] of
                (u1, err) \<Rightarrow>
                  if err \<noteq> None then Returns (u1, err)
                  else (case NestedSlice u1 [''spec'', ''params''] of
                    (params, found, err) \<Rightarrow>
                      if err \<noteq> None then Returns (u1, err)
                      else if \<not> found then Returns (u1, None)
                      else (case replaceParamsImage params images of
                        Panics \<Rightarrow> Panics
                      | Returns params' \<Rightarrow>
                          (case SetNestedField u1 (JSlice params') [''spec'', ''params''] of
                            (u2, err) \<Rightarrow>
                              if err \<noteq> None then Returns (u2, err)
                              else Returns (u2, None))))))))"

section \<open>The pipeline\<close>

text \<open>
  \<^verbatim>\<open>Manifest.Transform\<close> of the manifestival library works on deep copies of the
  resources: document by document, each transformer in turn, and at the first error it
  returns the empty manifest with the error.
\<close>

type_synonym Manifest = "object list"

fun run_transformers :: "Transformer list \<Rightarrow> object \<Rightarrow> (object \<times> error option) exec" where
  "run_transformers [] u = Returns (u, None)"
| "run_transformers (transform # fns) u =
     (case transform u of
        Panics \<Rightarrow> Panics
      | Returns (u', Some err) \<Rightarrow> Returns (u', Some err)
      | Returns (u', None) \<Rightarrow> run_transformers fns u')"

fun mf_Transform :: "Manifest \<Rightarrow> Transformer list \<Rightarrow> (Manifest \<times> error option) exec" where
  "mf_Transform [] fns = Returns ([], None)"
| "mf_Transform (spec # resources) fns =
     (case run_transformers fns spec of
        Panics \<Rightarrow> Panics
      | Returns (spec', Some err) \<Rightarrow> Returns ([], Some err)
      | Returns (spec', None) \<Rightarrow>
          (case mf_Transform resources fns of
             Panics \<Rightarrow> Panics
           | Returns (result, Some err) \<Rightarrow> Returns ([], Some err)
           | Returns (result, None) \<Rightarrow> Returns (spec' # result, None)))"

text \<open>
  Of the \<^verbatim>\<open>v1alpha1.TektonComponent\<close> the source reads the target namespace and
  marks the status. \<^verbatim>\<open>mf.InjectOwner\<close> is the parameter \<open>InjectOwner\<close>.
\<close>

record TektonComponent =
  TargetNamespace :: string
  InstallFailed :: "error option"

definition transformers ::
  "('t TektonComponent_scheme \<Rightarrow> Transformer) \<Rightarrow> (string \<Rightarrow> Transformer) \<Rightarrow>
   't TektonComponent_scheme \<Rightarrow> Transformer list" where
  "transformers InjectOwner InjectNamespace obj =
     [InjectOwner obj,
      injectNamespaceConditional InjectNamespace AnnotationPreserveNS (TargetNamespace obj),
      injectNamespaceCRDWebhookClientConfig (TargetNamespace obj)]"

text \<open>
  \<open>Transform\<close> returns its error, the manifest that the caller's pointer designates
  afterwards, and the component.
\<close>

definition Transform ::
  "('t TektonComponent_scheme \<Rightarrow> Transformer) \<Rightarrow> (string \<Rightarrow> Transformer) \<Rightarrow>
   Manifest \<Rightarrow> 't TektonComponent_scheme \<Rightarrow> Transformer list \<Rightarrow>
   (error option \<times> Manifest \<times> 't TektonComponent_scheme) exec" where
  "Transform InjectOwner InjectNamespace manifest instance extra =
     (let fns = transformers InjectOwner InjectNamespace instance @ extra
      in case mf_Transform manifest fns of
           Panics \<Rightarrow> Panics
         | Returns (m, Some err) \<Rightarrow>
             Returns (Some err, manifest, instance\<lparr>InstallFailed := Some err\<rparr>)
         | Returns (m, None) \<Rightarrow> Returns (None, m, instance))"

section \<open>What a rewrite leaves alone\<close>

text \<open>
  The frame of the task transformer, as relations between a value before and after.
  \<open>AList.delete field m\<close> is the map \<open>m\<close> without \<open>field\<close>: two maps whose
  remainders are equal differ in \<open>field\<close> at most. \<open>override_for\<close> is the table's
  entry for an element of \<^verbatim>\<open>steps\<close> or \<^verbatim>\<open>params\<close>, under the key that the source
  forms from the element's name.
\<close>

definition is_string :: "jvalue \<Rightarrow> bool" where
  "is_string v = (case v of JString s \<Rightarrow> True | _ \<Rightarrow> False)"

definition is_map :: "jvalue \<Rightarrow> bool" where
  "is_map v = (case v of JMap m \<Rightarrow> True | _ \<Rightarrow> False)"

definition override_for :: "(string \<rightharpoonup> string) \<Rightarrow> string \<Rightarrow> jvalue \<Rightarrow> string option" where
  "override_for images prefix s =
     (case s of
        JMap m \<Rightarrow>
          (case map_of m ''name'' of
             Some (JString name) \<Rightarrow> images (formKey prefix name)
           | _ \<Rightarrow> None)
      | _ \<Rightarrow> None)"

definition only_field_written :: "string \<Rightarrow> string option \<Rightarrow> jvalue \<Rightarrow> jvalue \<Rightarrow> bool" where
  "only_field_written field override s s' =
     (case (s, s') of
        (JMap m, JMap m') \<Rightarrow>
          AList.delete field m' = AList.delete field m \<and>
          ((override = None \<or> override = Some []) \<longrightarrow> m' = m)
      | _ \<Rightarrow> False)"

definition spec_kept :: "object \<Rightarrow> object \<Rightarrow> bool" where
  "spec_kept u u' =
     (AList.delete ''spec'' u' = AList.delete ''spec'' u \<and>
      (case (map_of u ''spec'', map_of u' ''spec'') of
         (Some (JMap sm), Some (JMap sm')) \<Rightarrow>
           AList.delete ''steps'' (AList.delete ''params'' sm')
             = AList.delete ''steps'' (AList.delete ''params'' sm)
       | (a, b) \<Rightarrow> a = b))"

definition slice_rewritten ::
  "string \<Rightarrow> (jvalue \<Rightarrow> string option) \<Rightarrow>
   jvalue list \<times> bool \<times> error option \<Rightarrow> jvalue list \<times> bool \<times> error option \<Rightarrow> bool" where
  "slice_rewritten field override r r' =
     (case (r, r') of
        ((xs, found, err), (xs', found', err')) \<Rightarrow>
          found' = found \<and> err' = err \<and>
          list_all2 (\<lambda>s. only_field_written field (override s) s) xs xs')"

section \<open>The argument loop by recursion on the list\<close>


section \<open>Example documents\<close>

text \<open>
  In the examples a transformer that stores the target namespace under
  \<^verbatim>\<open>metadata.namespace\<close> stands for \<^verbatim>\<open>mf.InjectNamespace\<close>, and one that stores a
  controller reference under \<^verbatim>\<open>metadata.ownerReferences\<close> for \<^verbatim>\<open>mf.InjectOwner\<close>.
\<close>

definition example_InjectNamespace :: "string \<Rightarrow> Transformer" where
  "example_InjectNamespace ns u =
     Returns (SetNestedField u (JString ns) [''metadata'', ''namespace''])"

definition example_InjectOwner :: "'t TektonComponent_scheme \<Rightarrow> Transformer" where
  "example_InjectOwner obj u =
     Returns (SetNestedField u
       (JSlice [JMap [(''kind'', JString ''TektonPipeline''), (''controller'', JBool True)]])
       [''metadata'', ''ownerReferences''])"

definition task_without_steps :: object where
  "task_without_steps =
     [(''kind'', JString ''ClusterTask''),
      (''spec'', JMap [(''params'',
         JSlice [JMap [(''name'', JString ''foo''), (''default'', JString ''old'')]])])]"

definition crd_service_string :: object where
  "crd_service_string =
     [(''kind'', JString ''CustomResourceDefinition''),
      (''spec'', JMap [(''conversion'', JMap [(''webhookClientConfig'',
         JMap [(''service'', JString ''tekton-webhook'')])])])]"

definition annotated :: "string \<Rightarrow> object" where
  "annotated val =
     [(''kind'', JString ''ConfigMap''),
      (''metadata'', JMap [(''name'', JString ''config''),
         (''annotations'', JMap [(AnnotationPreserveNS, JString val)])])]"

definition crd_spec_string :: object where
  "crd_spec_string =
     [(''kind'', JString ''CustomResourceDefinition''), (''spec'', JString ''none'')]"

definition example_component :: TektonComponent where
  "example_component = \<lparr>TargetNamespace = ''tekton-pipelines'', InstallFailed = None\<rparr>"


definition crd_spec_string_injected :: object where
  "crd_spec_string_injected =
     [(''kind'', JString ''CustomResourceDefinition''), (''spec'', JString ''none''),
      (''metadata'', JMap
         [(''ownerReferences'',
           JSlice [JMap [(''kind'', JString ''TektonPipeline''), (''controller'', JBool True)]]),
          (''namespace'', JString ''tekton-pipelines'')])]"

text \<open>
  In the examples a small converter stands for
  \<^verbatim>\<open>runtime.DefaultUnstructuredConverter\<close>: its Deployment has the containers, with
  their name, image and arguments, and the metadata, and nothing else.
\<close>

record ExampleDeployment = "unit Deployment" +
  ObjectMeta :: jvalue

definition string_of :: "jvalue option \<Rightarrow> string" where
  "string_of v = (case v of Some (JString s) \<Rightarrow> s | _ \<Rightarrow> [])"

definition strings_of :: "jvalue option \<Rightarrow> string list" where
  "strings_of v = (case v of Some (JSlice xs) \<Rightarrow> map (\<lambda>x. string_of (Some x)) xs | _ \<Rightarrow> [])"

definition container_of :: "jvalue \<Rightarrow> Container" where
  "container_of v =
     (case v of
        JMap m \<Rightarrow> \<lparr>Name = string_of (map_of m ''name''), Image = string_of (map_of m ''image''),
                   Args = strings_of (map_of m ''args'')\<rparr>
      | _ \<Rightarrow> \<lparr>Name = [], Image = [], Args = []\<rparr>)"

definition json_of_container :: "Container \<Rightarrow> jvalue" where
  "json_of_container c =
     JMap [(''name'', JString (Name c)), (''image'', JString (Image c)),
           (''args'', JSlice (map JString (Args c)))]"

definition containers_path :: "string list" where
  "containers_path = [''spec'', ''template'', ''spec'', ''containers'']"

definition example_FromUnstructured :: "object \<Rightarrow> error + ExampleDeployment" where
  "example_FromUnstructured u =
     (case NestedSlice u containers_path of
        (cs, found, Some e) \<Rightarrow> Inl e
      | (cs, found, None) \<Rightarrow>
          Inr \<lparr>Containers = map container_of cs,
               ObjectMeta = (case map_of u ''metadata'' of Some v \<Rightarrow> v | None \<Rightarrow> JNull)\<rparr>)"

definition example_ToUnstructured :: "ExampleDeployment \<Rightarrow> error + object" where
  "example_ToUnstructured d =
     Inr [(''kind'', JString ''Deployment''),
          (''metadata'', ObjectMeta d),
          (''spec'', JMap [(''template'', JMap [(''spec'',
             JMap [(''containers'', JSlice (map json_of_container (Containers d)))])])])]"

definition example_deployment :: "string list \<Rightarrow> object" where
  "example_deployment args =
     [(''kind'', JString ''Deployment''),
      (''metadata'', JMap [(''name'', JString ''controller'')]),
      (''note'', JString ''not a field of a Deployment''),
      (''spec'', JMap [(''template'', JMap [(''spec'',
         JMap [(''containers'', JSlice
           [JMap [(''name'', JString ''main''), (''image'', JString ''old''),
                  (''args'', JSlice (map JString args))]])])])])]"


definition example_deployment_converted :: "string \<Rightarrow> string list \<Rightarrow> object" where
  "example_deployment_converted img args =
     [(''kind'', JString ''Deployment''),
      (''metadata'', JMap [(''name'', JString ''controller'')]),
      (''spec'', JMap [(''template'', JMap [(''spec'',
         JMap [(''containers'', JSlice
           [JMap [(''name'', JString ''main''), (''image'', JString img),
                  (''args'', JSlice (map JString args))]])])])])]"

definition example_task :: object where
  "example_task =
     [(''kind'', JString ''ClusterTask''),
      (''metadata'', JMap [(''name'', JString ''buildah'')]),
      (''spec'', JMap
        [(''description'', JString ''builds an image''),
         (''params'', JSlice
            [JMap [(''name'', JString ''BUILDER-IMAGE''), (''default'', JString ''old''),
                   (''type'', JString ''string'')],
             JMap [(''name'', JString ''CONTEXT''), (''default'', JString ''.'')]]),
         (''steps'', JSlice
            [JMap [(''name'', JString ''build''), (''image'', JString ''old''),
                   (''script'', JString ''buildah bud'')],
             JMap [(''name'', JString ''push''), (''image'', JString ''keep'')],
             JMap [(''image'', JString ''nameless'')]])])]"

definition example_images :: "string \<rightharpoonup> string" where
  "example_images =
     [''build'' \<mapsto> ''new'', ''push'' \<mapsto> [], ''param_builder_image'' \<mapsto> ''newer'']"

definition example_task_rewritten :: object where
  "example_task_rewritten =
     [(''kind'', JString ''ClusterTask''),
      (''metadata'', JMap [(''name'', JString ''buildah'')]),
      (''spec'', JMap
        [(''description'', JString ''builds an image''),
         (''params'', JSlice
            [JMap [(''name'', JString ''BUILDER-IMAGE''), (''default'', JString ''newer''),
                   (''type'', JString ''string'')],
             JMap [(''name'', JString ''CONTEXT''), (''default'', JString ''.'')]]),
         (''steps'', JSlice
            [JMap [(''name'', JString ''build''), (''image'', JString ''new''),
                   (''script'', JString ''buildah bud'')],
             JMap [(''name'', JString ''push''), (''image'', JString ''keep'')],
             JMap [(''image'', JString ''nameless'')]])])]"

definition annotated_number :: object where
  "annotated_number =
     [(''kind'', JString ''ConfigMap''),
      (''metadata'', JMap [(''name'', JString ''config''),
         (''annotations'', JMap [(AnnotationPreserveNS, JString ''true''),
                                 (''replicas'', JNumber 3)])])]"

definition annotated_number_injected :: object where
  "annotated_number_injected =
     [(''kind'', JString ''ConfigMap''),
      (''metadata'', JMap [(''name'', JString ''config''),
         (''annotations'', JMap [(AnnotationPreserveNS, JString ''true''),
                                 (''replicas'', JNumber 3)]),
         (''namespace'', JString ''tekton-pipelines'')])]"








section \<open>Properties\<close>

lemmas key_simps = formKey_def ArgPrefix_def ParamPrefix_def ToLower_def ToLower_char_def
  upper_lower_def ReplaceAll_def splitsByEqual_def

lemmas accessor_simps = NestedFieldNoCopy_def NestedSlice_def NestedString_def GetKind_def
  NestedStringMap_def GetAnnotations_def SetNestedField_def

subsection \<open>Splitting\<close>

lemma Split_append:
  "sep \<notin> set a \<Longrightarrow> Split (a @ sep # rest) sep = a # Split rest sep"
  by (induction a) auto


subsection \<open>Container arguments\<close>

text \<open>
  C4. The spec gives the override table \<^verbatim>\<open>{"arg_replicas": "v2"}\<close> for the flag
  \<^verbatim>\<open>--replicas\<close>. \<open>formKey\<close> turns every \<^verbatim>\<open>-\<close> of the flag into \<^verbatim>\<open>_\<close>,
  the leading ones too, so the flag's key is \<^verbatim>\<open>arg___replicas\<close>: with the table of
  the spec neither argument list changes.
\<close>

theorem replicas_spec_table_counterexample:
  "replaceContainersArgsImage
       \<lparr>Name = ''controller'', Image = ''img'', Args = [''--replicas=v1'']\<rparr>
       [''arg_replicas'' \<mapsto> ''v2'']
     = Returns \<lparr>Name = ''controller'', Image = ''img'', Args = [''--replicas=v1'']\<rparr>
   \<and> replaceContainersArgsImage
       \<lparr>Name = ''controller'', Image = ''img'', Args = [''--replicas'', ''v1'']\<rparr>
       [''arg_replicas'' \<mapsto> ''v2'']
     = Returns \<lparr>Name = ''controller'', Image = ''img'', Args = [''--replicas'', ''v1'']\<rparr>"
  by (simp add: replaceContainersArgsImage_def args_loop.simps key_simps)

text \<open>
  C4, amended. With the override table \<^verbatim>\<open>{"arg___replicas": "v2"}\<close>, a container
  whose argument list is \<^verbatim>\<open>["--replicas=v1"]\<close> ends with \<^verbatim>\<open>["--replicas=v2"]\<close>, and
  one whose argument list is \<^verbatim>\<open>["--replicas", "v1"]\<close> ends with
  \<^verbatim>\<open>["--replicas", "v2"]\<close>; the container's other fields are kept.
\<close>

theorem replicas_formKey_table:
  "replaceContainersArgsImage (c\<lparr>Args := [''--replicas=v1'']\<rparr>) [''arg___replicas'' \<mapsto> ''v2'']
     = Returns (c\<lparr>Args := [''--replicas=v2'']\<rparr>)
   \<and> replaceContainersArgsImage (c\<lparr>Args := [''--replicas'', ''v1'']\<rparr>) [''arg___replicas'' \<mapsto> ''v2'']
     = Returns (c\<lparr>Args := [''--replicas'', ''v2'']\<rparr>)"
  by (simp add: replaceContainersArgsImage_def args_loop.simps key_simps)

text \<open>
  The loop that has reached the last argument, a bare flag with an override, panics,
  whatever the arguments before it were, as long as none of them writes past itself.
\<close>

lemma args_loop_bare_last:
  assumes "\<forall>p \<in> set pre. snd (splitsByEqual p) \<or> images (formKey ArgPrefix p) = None"
    and "\<not> snd (splitsByEqual arg)"
    and "images (formKey ArgPrefix arg) = Some url"
  shows "args_loop images (length done) (done @ pre @ [arg]) = Panics"
  using assms
proof (induction pre arbitrary: "done")
  case Nil
  then show ?case by (simp add: args_loop.simps [of _ "length done"] nth_append)
next
  case (Cons p pre)
  have step: "args_loop images (Suc (length done)) (d @ pre @ [arg]) = Panics"
    if "length d = Suc (length done)" for d :: "string list"
    using that Cons.IH [of d] Cons.prems by simp
  have moved: "args_loop images (Suc (length done)) ((done @ [q]) @ pre @ [arg]) = Panics" for q
    by (rule step) simp
  have upd: "(done @ p # pre @ [arg])[length done := q] = (done @ [q]) @ pre @ [arg]" for q
    by (simp add: list_update_append)
  show ?case
    using Cons.prems(1) moved
    by (subst args_loop.simps) (auto simp: nth_append Let_def upd split: option.splits)
qed

text \<open>
  C2. The claim: when the argument list ends with a bare flag whose key is in the
  table, the transformer checks the bound and skips. The code does not: for an
  argument list whose last element is a bare flag with an override, and whose earlier
  elements are \<^verbatim>\<open>name=value\<close> arguments or have no override, the statement
  \<^verbatim>\<open>container.Args[a+1] = url\<close> runs with \<open>a + 1\<close> equal to the length, and the call
  panics.
\<close>

theorem trailing_bare_flag_panics:
  assumes "\<forall>p \<in> set pre. snd (splitsByEqual p) \<or> images (formKey ArgPrefix p) = None"
    and "\<not> snd (splitsByEqual arg)"
    and "images (formKey ArgPrefix arg) = Some url"
  shows "replaceContainersArgsImage (c\<lparr>Args := pre @ [arg]\<rparr>) images = Panics"
  using args_loop_bare_last [OF assms, of "[]"]
  by (simp add: replaceContainersArgsImage_def)

theorem trailing_bare_flag_panics_witness:
  "\<not> snd (splitsByEqual ''--replicas'')
   \<and> [''arg___replicas'' \<mapsto> ''v2''] (formKey ArgPrefix ''--replicas'') = Some ''v2''
   \<and> replaceContainersArgsImage
        \<lparr>Name = ''controller'', Image = ''img'', Args = [''--verbose=1'', ''--replicas'']\<rparr>
        [''arg___replicas'' \<mapsto> ''v2''] = Panics"
proof -
  let ?images = "[''arg___replicas'' \<mapsto> ''v2'']"
  have a: "\<forall>p \<in> set [''--verbose=1'']. snd (splitsByEqual p) \<or> ?images (formKey ArgPrefix p) = None"
    by (simp add: key_simps)
  have b: "\<not> snd (splitsByEqual ''--replicas'')"
    by (simp add: key_simps)
  have c: "?images (formKey ArgPrefix ''--replicas'') = Some ''v2''"
    by (simp add: key_simps)
  have p: "replaceContainersArgsImage
        \<lparr>Name = ''controller'', Image = ''img'', Args = [''--verbose=1'', ''--replicas'']\<rparr>
        ?images = Panics"
    using trailing_bare_flag_panics [OF a b c,
        of "\<lparr>Name = ''controller'', Image = ''img'', Args = []\<rparr>"]
    by (simp del: fun_upd_apply)
  show ?thesis
    using p b c by (intro conjI)
qed

subsection \<open>The override table\<close>

text \<open>
  C6. The claim: the table maps the stripped key to the entry's whole value, also when
  the value contains \<^verbatim>\<open>=\<close>. The code takes \<^verbatim>\<open>keyValue[1]\<close> of
  \<^verbatim>\<open>strings.Split(env, "=")\<close>: of an entry \<^verbatim>\<open>prefix name = v1 = v2\<close> it stores
  \<open>v1\<close>, the value up to its first \<^verbatim>\<open>=\<close>, and not \<^verbatim>\<open>v1=v2\<close>.
\<close>

theorem ImagesFromEnv_cuts_value:
  assumes "CHR ''='' \<notin> set prefix" and "CHR ''='' \<notin> set name" and "CHR ''='' \<notin> set v1"
  shows "ImagesFromEnv [prefix @ name @ ''='' @ v1 @ ''='' @ v2] prefix
           = Returns (Map.empty(name \<mapsto> v1))"
proof -
  have pn: "CHR ''='' \<notin> set (prefix @ name)" using assms by simp
  have "Split (prefix @ name @ CHR ''='' # v1 @ CHR ''='' # v2) CHR ''=''
      = (prefix @ name) # v1 # Split v2 CHR ''=''"
    using Split_append [OF pn, of "v1 @ CHR ''='' # v2"] Split_append [OF assms(3), of v2]
    by simp
  then show ?thesis
    by (simp add: ImagesFromEnv_def HasPrefix_def TrimPrefix_def)
qed

theorem ImagesFromEnv_cuts_value_witness:
  "ImagesFromEnv [''IMAGE_PIPELINES_FOO=a=b''] ''IMAGE_PIPELINES_''
     = Returns (Map.empty(''FOO'' \<mapsto> ''a''))
   \<and> ''a'' \<noteq> ''a=b''"
  using ImagesFromEnv_cuts_value [of "''IMAGE_PIPELINES_''" "''FOO''" "''a''" "''b''"] by simp

subsection \<open>Task images\<close>

text \<open>
  C3. The claim: when \<^verbatim>\<open>spec.steps\<close> is absent, the params are still rewritten. The
  code returns as soon as \<^verbatim>\<open>spec.steps\<close> is not found: the document is left as it
  was, its params included.
\<close>

theorem TaskImages_without_steps:
  assumes "GetKind u = ''ClusterTask''"
    and "NestedSlice u [''spec'', ''steps''] = ([], False, None)"
  shows "TaskImages images u = Returns (u, None)"
  using assms by (simp add: TaskImages_def)

theorem TaskImages_without_steps_witness:
  "GetKind task_without_steps = ''ClusterTask''
   \<and> NestedSlice task_without_steps [''spec'', ''steps''] = ([], False, None)
   \<and> [''param_foo'' \<mapsto> ''new''] (formKey ParamPrefix ''foo'') = Some ''new''
   \<and> TaskImages [''param_foo'' \<mapsto> ''new''] task_without_steps
       = Returns (task_without_steps, None)"
proof -
  have k: "GetKind task_without_steps = ''ClusterTask''"
    by (simp add: task_without_steps_def accessor_simps)
  have s: "NestedSlice task_without_steps [''spec'', ''steps''] = ([], False, None)"
    by (simp add: task_without_steps_def accessor_simps)
  have f: "[''param_foo'' \<mapsto> ''new''] (formKey ParamPrefix ''foo'') = Some ''new''"
    by (simp add: key_simps)
  show ?thesis using TaskImages_without_steps [OF k s] k s f by simp
qed

subsection \<open>The webhook configuration\<close>

text \<open>
  C5. The claim: a CustomResourceDefinition whose
  \<^verbatim>\<open>spec.conversion.webhookClientConfig.service\<close> is present and not a mapping makes
  the transformer return an error. The code asserts the type without the second
  result: on such a document the call panics, it returns no error.
\<close>

theorem webhook_service_not_a_map_panics:
  assumes "ToLower (GetKind u) = ''customresourcedefinition''"
    and "NestedFieldNoCopy u webhook_service_path = (service, True, None)"
    and "\<forall>m. service \<noteq> JMap m"
  shows "injectNamespaceCRDWebhookClientConfig targetNamespace u = Panics"
  using assms by (cases service) (simp_all add: injectNamespaceCRDWebhookClientConfig_def)

theorem webhook_service_not_a_map_panics_witness:
  "ToLower (GetKind crd_service_string) = ''customresourcedefinition''
   \<and> NestedFieldNoCopy crd_service_string webhook_service_path
       = (JString ''tekton-webhook'', True, None)
   \<and> injectNamespaceCRDWebhookClientConfig ''tekton-pipelines'' crd_service_string = Panics"
proof -
  have k: "ToLower (GetKind crd_service_string) = ''customresourcedefinition''"
    by (simp add: crd_service_string_def accessor_simps key_simps)
  have s: "NestedFieldNoCopy crd_service_string webhook_service_path
      = (JString ''tekton-webhook'', True, None)"
    by (simp add: crd_service_string_def accessor_simps webhook_service_path_def)
  have n: "\<forall>m. JString ''tekton-webhook'' \<noteq> JMap m" by simp
  show ?thesis
    using webhook_service_not_a_map_panics [OF k s n, of "''tekton-pipelines''"] k s by simp
qed

subsection \<open>The conditional namespace transformer\<close>

text \<open>
  \<^verbatim>\<open>GetAnnotations\<close> gives the annotations of a document only when
  \<^verbatim>\<open>metadata.annotations\<close> is a mapping all of whose values are strings.
\<close>

lemma string_entries_None:
  "\<not> list_all (\<lambda>kv. is_string (snd kv)) m \<Longrightarrow> string_entries m = None"
  by (induction m rule: string_entries.induct)
     (auto simp: is_string_def split: jvalue.splits)

lemma string_entries_Some:
  "list_all (\<lambda>kv. is_string (snd kv)) m \<Longrightarrow>
   \<exists>strMap. string_entries m = Some strMap \<and>
     (\<forall>k s. map_of strMap k = Some s \<longleftrightarrow> map_of m k = Some (JString s))"
proof (induction m rule: string_entries.induct)
  case 1
  then show ?case by simp
next
  case (2 k v kvs)
  then obtain str where v: "v = JString str" by (cases v) (simp_all add: is_string_def)
  from 2 v obtain strMap where "string_entries kvs = Some strMap"
    and "\<forall>k s. map_of strMap k = Some s \<longleftrightarrow> map_of kvs k = Some (JString s)"
    by auto
  then show ?case by (simp add: v)
qed

lemma GetAnnotations_strings:
  assumes "NestedFieldNoCopy u [''metadata'', ''annotations''] = (JMap m, True, None)"
    and "list_all (\<lambda>kv. is_string (snd kv)) m"
  shows "GetAnnotations u k = Some s \<longleftrightarrow> map_of m k = Some (JString s)"
  using assms string_entries_Some [OF assms(2)]
  by (auto simp: GetAnnotations_def NestedStringMap_def)

lemma GetAnnotations_not_strings:
  assumes "NestedFieldNoCopy u [''metadata'', ''annotations''] = (JMap m, True, None)"
    and "\<not> list_all (\<lambda>kv. is_string (snd kv)) m"
  shows "GetAnnotations u k = None"
  using assms string_entries_None [OF assms(2)]
  by (simp add: GetAnnotations_def NestedStringMap_def)

lemma GetAnnotations_no_map:
  assumes "NestedFieldNoCopy u [''metadata'', ''annotations''] = (val, found, err)"
    and "\<not> found \<or> err \<noteq> None \<or> (\<forall>m. val \<noteq> JMap m)"
  shows "GetAnnotations u k = None"
  using assms
  by (cases val) (auto simp: GetAnnotations_def NestedStringMap_def)

text \<open>
  C8. The claim: on every document that carries the preserve-namespace annotation with
  the value \<^verbatim>\<open>true\<close> the transformer is the identity. A document that carries
  it beside an annotation whose value is not a string (here the number 3) is rewritten:
  its annotations read as the nil map, and the namespace is injected.
\<close>

theorem preserve_with_number_counterexample:
  "NestedFieldNoCopy annotated_number [''metadata'', ''annotations'', AnnotationPreserveNS]
     = (JString ''true'', True, None)
   \<and> injectNamespaceConditional example_InjectNamespace AnnotationPreserveNS ''tekton-pipelines''
        annotated_number = Returns (annotated_number_injected, None)
   \<and> annotated_number_injected \<noteq> annotated_number"
  by (simp add: injectNamespaceConditional_def Let_def annotated_number_def
      annotated_number_injected_def example_InjectNamespace_def AnnotationPreserveNS_def
      accessor_simps)

text \<open>
  C8, amended. On a document whose \<^verbatim>\<open>metadata.annotations\<close> is a mapping with
  string values only, the conditional namespace transformer returns no error and leaves
  the document as it is when the preserve-namespace annotation is the string
  \<^verbatim>\<open>true\<close>, exactly; with any other value, or without the annotation, it is the
  namespace injection. On every other document (no annotations, annotations that are
  not a mapping, or one annotation value that is not a string) it is the namespace
  injection, whatever the preserve-namespace annotation holds.
\<close>

theorem injectNamespaceConditional_by_annotations:
  "injectNamespaceConditional InjectNamespace preserveNamespace targetNamespace u =
     (case NestedFieldNoCopy u [''metadata'', ''annotations''] of
        (JMap m, True, None) \<Rightarrow>
          if list_all (\<lambda>kv. is_string (snd kv)) m \<and>
             map_of m preserveNamespace = Some (JString ''true'')
          then Returns (u, None)
          else InjectNamespace targetNamespace u
      | _ \<Rightarrow> InjectNamespace targetNamespace u)"
proof -
  obtain val found err where look:
    "NestedFieldNoCopy u [''metadata'', ''annotations''] = (val, found, err)"
    by (cases "NestedFieldNoCopy u [''metadata'', ''annotations'']")
  have run: "injectNamespaceConditional InjectNamespace preserveNamespace targetNamespace u =
      (if GetAnnotations u preserveNamespace = Some ''true'' then Returns (u, None)
       else InjectNamespace targetNamespace u)"
    by (simp add: injectNamespaceConditional_def Let_def split: option.splits)
  show ?thesis
  proof (cases "found \<and> err = None \<and> (\<exists>m. val = JMap m)")
    case False
    then have "GetAnnotations u preserveNamespace = None"
      using GetAnnotations_no_map [OF look] by blast
    then show ?thesis
      using False look by (auto simp: run split: jvalue.splits option.splits bool.splits)
  next
    case True
    then obtain m where m: "NestedFieldNoCopy u [''metadata'', ''annotations''] = (JMap m, True, None)"
      using look by auto
    show ?thesis
    proof (cases "list_all (\<lambda>kv. is_string (snd kv)) m")
      case True
      then show ?thesis
        using GetAnnotations_strings [OF m True, of preserveNamespace "''true''"]
        by (simp add: run m)
    next
      case False
      then show ?thesis
        using GetAnnotations_not_strings [OF m False, of preserveNamespace]
        by (simp add: run m)
    qed
  qed
qed

theorem injectNamespaceConditional_by_annotations_witness:
  "injectNamespaceConditional example_InjectNamespace AnnotationPreserveNS ''ns''
        (annotated ''true'') = Returns (annotated ''true'', None)
   \<and> example_InjectNamespace ''ns'' (annotated ''true'') \<noteq> Returns (annotated ''true'', None)
   \<and> injectNamespaceConditional example_InjectNamespace AnnotationPreserveNS ''ns''
        (annotated ''True'') = example_InjectNamespace ''ns'' (annotated ''True'')
   \<and> injectNamespaceConditional example_InjectNamespace AnnotationPreserveNS ''ns''
        annotated_number = example_InjectNamespace ''ns'' annotated_number
   \<and> injectNamespaceConditional example_InjectNamespace AnnotationPreserveNS ''ns''
        task_without_steps = example_InjectNamespace ''ns'' task_without_steps"
proof -
  have look: "NestedFieldNoCopy (annotated val) [''metadata'', ''annotations'']
      = (JMap [(AnnotationPreserveNS, JString val)], True, None)" for val
    by (simp add: annotated_def accessor_simps)
  have lookn: "NestedFieldNoCopy annotated_number [''metadata'', ''annotations'']
      = (JMap [(AnnotationPreserveNS, JString ''true''), (''replicas'', JNumber 3)], True, None)"
    by (simp add: annotated_number_def accessor_simps)
  have lookt: "NestedFieldNoCopy task_without_steps [''metadata'', ''annotations'']
      = (JNull, False, None)"
    by (simp add: task_without_steps_def accessor_simps)
  have n: "example_InjectNamespace ''ns'' (annotated ''true'') \<noteq> Returns (annotated ''true'', None)"
    by (simp add: example_InjectNamespace_def annotated_def accessor_simps)
  note inst = injectNamespaceConditional_by_annotations
      [of example_InjectNamespace AnnotationPreserveNS "''ns''"]
  show ?thesis
    using inst [of "annotated ''true''"] inst [of "annotated ''True''"]
      inst [of annotated_number] inst [of task_without_steps] n
    by (simp add: look lookn lookt is_string_def)
qed


subsection \<open>The pipeline\<close>

lemmas example_simps = example_InjectOwner_def example_InjectNamespace_def
  example_component_def annotated_def crd_spec_string_def crd_spec_string_injected_def
  task_without_steps_def AnnotationPreserveNS_def

lemma run_transformers_error:
  "run_transformers pre u = Returns (v, None) \<Longrightarrow> t v = Returns (v', Some e) \<Longrightarrow>
   run_transformers (pre @ t # post) u = Returns (v', Some e)"
  by (induction pre arbitrary: u) (auto split: exec.splits option.splits)

lemma mf_Transform_error:
  assumes "\<forall>d \<in> set before. \<exists>d'. run_transformers fns d = Returns (d', None)"
    and "run_transformers fns doc = Returns (v, Some e)"
  shows "mf_Transform (before @ doc # after) fns = Returns ([], Some e)"
  using assms by (induction before) (auto split: exec.splits option.splits)

lemma mf_Transform_success:
  "mf_Transform m fns = Returns (m', None) \<Longrightarrow>
   list_all2 (\<lambda>u u'. run_transformers fns u = Returns (u', None)) m m'"
  by (induction m arbitrary: m') (auto split: exec.splits option.splits)

lemma mf_Transform_failure:
  "mf_Transform m fns = Returns (m', Some e) \<Longrightarrow>
   m' = [] \<and> (\<exists>u \<in> set m. \<exists>u'. run_transformers fns u = Returns (u', Some e))"
  by (induction m arbitrary: m') (auto split: exec.splits option.splits)

text \<open>
  C1. When a transformer returns an error on a document (the documents before it having
  passed every transformer, and the transformers before it having passed on this
  document), \<open>Transform\<close> returns that error, marks the installation as failed and
  leaves the caller's manifest as it was. Whenever \<open>Transform\<close> returns, either it
  returns no error and the manifest is the one in which every document went through
  every transformer without error, or it returns an error that some document's run
  produced and the manifest is unchanged.
\<close>

theorem Transform_commits_only_on_success:
  "((\<forall>d \<in> set before. \<exists>d'.
        run_transformers (transformers InjectOwner InjectNamespace instance @ extra) d
          = Returns (d', None)) \<and>
      transformers InjectOwner InjectNamespace instance @ extra = pre @ transform # post \<and>
      run_transformers pre doc = Returns (v, None) \<and>
      transform v = Returns (v', Some err) \<longrightarrow>
      Transform InjectOwner InjectNamespace (before @ doc # after) instance extra
        = Returns (Some err, before @ doc # after, instance\<lparr>InstallFailed := Some err\<rparr>))
   \<and> (Transform InjectOwner InjectNamespace manifest instance extra = Returns (r, m', instance') \<longrightarrow>
      (r = None \<and> instance' = instance \<and>
         list_all2 (\<lambda>u u'.
            run_transformers (transformers InjectOwner InjectNamespace instance @ extra) u
              = Returns (u', None)) manifest m')
      \<or> (\<exists>e. r = Some e \<and> m' = manifest \<and> instance' = instance\<lparr>InstallFailed := Some e\<rparr> \<and>
            (\<exists>u \<in> set manifest. \<exists>u'.
               run_transformers (transformers InjectOwner InjectNamespace instance @ extra) u
                 = Returns (u', Some e))))"
proof -
  let ?fns = "transformers InjectOwner InjectNamespace instance @ extra"
  have first: "Transform InjectOwner InjectNamespace (before @ doc # after) instance extra
        = Returns (Some err, before @ doc # after, instance\<lparr>InstallFailed := Some err\<rparr>)"
    if ok: "\<forall>d \<in> set before. \<exists>d'. run_transformers ?fns d = Returns (d', None)"
      and split: "?fns = pre @ transform # post"
      and pre: "run_transformers pre doc = Returns (v, None)"
      and err: "transform v = Returns (v', Some err)"
  proof -
    have "run_transformers ?fns doc = Returns (v', Some err)"
      using run_transformers_error [of pre doc v transform v' err post] pre err split by simp
    then have "mf_Transform (before @ doc # after) ?fns = Returns ([], Some err)"
      using ok by (rule mf_Transform_error [rotated])
    then show ?thesis
      by (simp add: Transform_def)
  qed
  have second: "(r = None \<and> instance' = instance \<and>
         list_all2 (\<lambda>u u'. run_transformers ?fns u = Returns (u', None)) manifest m')
      \<or> (\<exists>e. r = Some e \<and> m' = manifest \<and> instance' = instance\<lparr>InstallFailed := Some e\<rparr> \<and>
            (\<exists>u \<in> set manifest. \<exists>u'. run_transformers ?fns u = Returns (u', Some e)))"
    if t: "Transform InjectOwner InjectNamespace manifest instance extra = Returns (r, m', instance')"
  proof (cases "mf_Transform manifest ?fns")
    case Panics
    with t show ?thesis by (simp add: Transform_def)
  next
    case (Returns res)
    obtain m e where res: "res = (m, e)" by (cases res)
    show ?thesis
    proof (cases e)
      case None
      with t Returns res mf_Transform_success [of manifest ?fns m]
      show ?thesis by (auto simp: Transform_def)
    next
      case (Some x)
      with t Returns res mf_Transform_failure [of manifest ?fns m x]
      show ?thesis by (auto simp: Transform_def)
    qed
  qed
  show ?thesis
    using first second by blast
qed


theorem Transform_commits_only_on_success_witness:
  "Transform example_InjectOwner example_InjectNamespace
       [annotated ''false'', crd_spec_string, task_without_steps] example_component []
     = Returns (Some (AccessorError [''spec'', ''conversion'']),
         [annotated ''false'', crd_spec_string, task_without_steps],
         example_component\<lparr>InstallFailed := Some (AccessorError [''spec'', ''conversion''])\<rparr>)
   \<and> (\<exists>d'. run_transformers
          (transformers example_InjectOwner example_InjectNamespace example_component @ [])
          (annotated ''false'') = Returns (d', None) \<and> d' \<noteq> annotated ''false'')"
proof -
  let ?fns = "transformers example_InjectOwner example_InjectNamespace example_component @ []"
  let ?pre = "[example_InjectOwner example_component,
      injectNamespaceConditional example_InjectNamespace AnnotationPreserveNS
        (TargetNamespace example_component)]"
  let ?err = "AccessorError [''spec'', ''conversion'']"
  have run: "\<exists>d'. run_transformers ?fns (annotated ''false'') = Returns (d', None)
      \<and> d' \<noteq> annotated ''false''"
    by (simp add: transformers_def injectNamespaceConditional_def Let_def
        injectNamespaceCRDWebhookClientConfig_def example_simps accessor_simps key_simps)
  then have ok: "\<forall>d \<in> set [annotated ''false'']. \<exists>d'. run_transformers ?fns d = Returns (d', None)"
    by auto
  have split: "?fns = ?pre @ injectNamespaceCRDWebhookClientConfig (TargetNamespace example_component) # []"
    by (simp add: transformers_def)
  have pre: "run_transformers ?pre crd_spec_string = Returns (crd_spec_string_injected, None)"
    by (simp add: injectNamespaceConditional_def Let_def example_simps accessor_simps)
  have err: "injectNamespaceCRDWebhookClientConfig (TargetNamespace example_component)
      crd_spec_string_injected = Returns (crd_spec_string_injected, Some ?err)"
    by (simp add: injectNamespaceCRDWebhookClientConfig_def webhook_service_path_def
        example_simps accessor_simps key_simps)
  have "Transform example_InjectOwner example_InjectNamespace
       ([annotated ''false''] @ crd_spec_string # [task_without_steps]) example_component []
     = Returns (Some ?err, [annotated ''false''] @ crd_spec_string # [task_without_steps],
         example_component\<lparr>InstallFailed := Some ?err\<rparr>)"
    using Transform_commits_only_on_success
      [of "[annotated ''false'']" example_InjectOwner example_InjectNamespace example_component "[]"
        ?pre "injectNamespaceCRDWebhookClientConfig (TargetNamespace example_component)" "[]"
        crd_spec_string crd_spec_string_injected crd_spec_string_injected ?err
        "[task_without_steps]"]
      ok split pre err
    by blast
  then show ?thesis using run by simp
qed

subsection \<open>Deployment images\<close>

lemmas converter_simps = string_of_def strings_of_def container_of_def json_of_container_def
  containers_path_def example_FromUnstructured_def example_ToUnstructured_def
  example_deployment_def example_deployment_converted_def

lemma args_loop_empty: "args_loop Map.empty a args = Returns args"
proof (induction "length args - a" arbitrary: a)
  case 0
  then show ?case by (subst args_loop.simps) simp
next
  case (Suc n)
  then have "args_loop Map.empty (Suc a) args = Returns args" by simp
  then show ?case by (subst args_loop.simps) (simp add: Let_def)
qed

lemma replaceContainerImages_empty: "replaceContainerImages cs Map.empty = Returns cs"
  by (induction cs) (simp_all add: replaceContainersArgsImage_def args_loop_empty)

text \<open>
  C9. On a document of kind \<^verbatim>\<open>Deployment\<close> that converts to the typed Deployment
  \<open>d\<close>, whatever the override table: the transformer panics when the rewrite of the
  containers does; otherwise it converts \<open>d\<close>, with its containers rewritten, back,
  and the result of that conversion becomes the document's whole content (on an error
  of the conversion the document is kept and the error returned). With the empty table
  the containers are not changed: the new content is the conversion of \<open>d\<close> itself.
  The new content depends on the document through \<open>d\<close> only: a second document of
  kind \<^verbatim>\<open>Deployment\<close> with the same typed representation is transformed into the
  same document, so nothing that the typed representation does not hold survives.
\<close>

theorem DeploymentImages_round_trip:
  assumes "GetKind u = ''Deployment''" and "FromUnstructured u = Inr d"
  shows "DeploymentImages FromUnstructured ToUnstructured images u =
           (case replaceContainerImages (Containers d) images of
              Panics \<Rightarrow> Panics
            | Returns containers \<Rightarrow>
                (case ToUnstructured (d\<lparr>Containers := containers\<rparr>) of
                   Inl err \<Rightarrow> Returns (u, Some err)
                 | Inr unstrObj \<Rightarrow> Returns (unstrObj, None)))
     \<and> DeploymentImages FromUnstructured ToUnstructured Map.empty u =
           (case ToUnstructured d of
              Inl err \<Rightarrow> Returns (u, Some err)
            | Inr unstrObj \<Rightarrow> Returns (unstrObj, None))
     \<and> (GetKind u' = ''Deployment'' \<and> FromUnstructured u' = Inr d \<and>
          DeploymentImages FromUnstructured ToUnstructured images u = Returns (v, None) \<longrightarrow>
          DeploymentImages FromUnstructured ToUnstructured images u' = Returns (v, None))"
proof (intro conjI impI)
  show run: "DeploymentImages FromUnstructured ToUnstructured images u =
           (case replaceContainerImages (Containers d) images of
              Panics \<Rightarrow> Panics
            | Returns containers \<Rightarrow>
                (case ToUnstructured (d\<lparr>Containers := containers\<rparr>) of
                   Inl err \<Rightarrow> Returns (u, Some err)
                 | Inr unstrObj \<Rightarrow> Returns (unstrObj, None)))" for images
    using assms by (simp add: DeploymentImages_def)
  show "DeploymentImages FromUnstructured ToUnstructured Map.empty u =
           (case ToUnstructured d of
              Inl err \<Rightarrow> Returns (u, Some err)
            | Inr unstrObj \<Rightarrow> Returns (unstrObj, None))"
    by (simp add: run replaceContainerImages_empty)
next
  assume other: "GetKind u' = ''Deployment'' \<and> FromUnstructured u' = Inr d \<and>
      DeploymentImages FromUnstructured ToUnstructured images u = Returns (v, None)"
  then obtain containers where "replaceContainerImages (Containers d) images = Returns containers"
    and "ToUnstructured (d\<lparr>Containers := containers\<rparr>) = Inr v"
    using assms by (auto simp: DeploymentImages_def split: exec.splits sum.splits)
  then show "DeploymentImages FromUnstructured ToUnstructured images u' = Returns (v, None)"
    using other by (simp add: DeploymentImages_def)
qed

theorem DeploymentImages_round_trip_witness:
  "GetKind (example_deployment [''--verbose'']) = ''Deployment''
   \<and> DeploymentImages example_FromUnstructured example_ToUnstructured [''main'' \<mapsto> ''new'']
        (example_deployment [''--verbose''])
       = Returns (example_deployment_converted ''new'' [''--verbose''], None)
   \<and> DeploymentImages example_FromUnstructured example_ToUnstructured Map.empty
        (example_deployment [''--verbose''])
       = Returns (example_deployment_converted ''old'' [''--verbose''], None)
   \<and> map_of (example_deployment [''--verbose'']) ''note''
       = Some (JString ''not a field of a Deployment'')
   \<and> map_of (example_deployment_converted ''old'' [''--verbose'']) ''note'' = None
   \<and> DeploymentImages example_FromUnstructured example_ToUnstructured [''main'' \<mapsto> ''new'']
        (example_deployment_converted ''old'' [''--verbose''])
       = Returns (example_deployment_converted ''new'' [''--verbose''], None)"
proof -
  let ?u = "example_deployment [''--verbose'']"
  let ?u' = "example_deployment_converted ''old'' [''--verbose'']"
  let ?v = "example_deployment_converted ''new'' [''--verbose'']"
  let ?images = "[''main'' \<mapsto> ''new'']"
  let ?c = "\<lparr>Name = ''main'', Image = ''old'', Args = [''--verbose'']\<rparr>"
  let ?d = "\<lparr>Containers = [?c], ObjectMeta = JMap [(''name'', JString ''controller'')]\<rparr>"
  have k: "GetKind ?u = ''Deployment''"
    by (simp add: example_deployment_def accessor_simps)
  have k': "GetKind ?u' = ''Deployment''"
    by (simp add: example_deployment_converted_def accessor_simps)
  have f: "example_FromUnstructured ?u = Inr ?d"
    by (simp add: converter_simps accessor_simps)
  have f': "example_FromUnstructured ?u' = Inr ?d"
    by (simp add: converter_simps accessor_simps)
  have r: "replaceContainerImages (Containers ?d) ?images = Returns [?c\<lparr>Image := ''new''\<rparr>]"
    by (simp add: replaceContainersArgsImage_def args_loop.simps key_simps)
  have t: "example_ToUnstructured (?d\<lparr>Containers := [?c\<lparr>Image := ''new''\<rparr>]\<rparr>) = Inr ?v"
    by (simp add: converter_simps)
  have t0: "example_ToUnstructured ?d = Inr ?u'"
    by (simp add: converter_simps)
  note inst = DeploymentImages_round_trip
    [of ?u example_FromUnstructured ?d example_ToUnstructured ?images ?u' ?v, OF k f]
  have run: "DeploymentImages example_FromUnstructured example_ToUnstructured ?images ?u
      = Returns (?v, None)"
    using inst r t by (simp del: fun_upd_apply)
  have run0: "DeploymentImages example_FromUnstructured example_ToUnstructured Map.empty ?u
      = Returns (?u', None)"
    using inst t0 by simp
  have run': "DeploymentImages example_FromUnstructured example_ToUnstructured ?images ?u'
      = Returns (?v, None)"
    using inst k' f' run by blast
  have n: "map_of ?u ''note'' = Some (JString ''not a field of a Deployment'')"
    by (simp add: example_deployment_def)
  have n': "map_of ?u' ''note'' = None"
    by (simp add: example_deployment_converted_def)
  show ?thesis
    using k run run0 n n' run' by (intro conjI)
qed

subsection \<open>The frame of the task transformer\<close>

lemma only_field_written_refl: "is_map s \<Longrightarrow> only_field_written field override s s"
  by (cases s) (simp_all add: only_field_written_def is_map_def)

lemma list_all2_only_field_written_refl:
  "list_all is_map xs \<Longrightarrow> list_all2 (\<lambda>s. only_field_written field (f s) s) xs xs"
  by (induction xs) (simp_all add: only_field_written_refl)

lemma spec_kept_refl: "spec_kept u u"
  by (auto simp: spec_kept_def split: option.splits jvalue.splits)

lemma step_written:
  "only_field_written ''image'' (override_for images [] (JMap step)) (JMap step)
     (case map_of step ''name'' of
        Some (JString name) \<Rightarrow>
          (case images (formKey [] name) of
             Some img \<Rightarrow>
               if img = [] then JMap step
               else JMap (AList.update ''image'' (JString img) step)
           | None \<Rightarrow> JMap step)
      | _ \<Rightarrow> JMap step)"
  by (auto simp: only_field_written_def override_for_def delete_update_same
      split: option.splits jvalue.splits)

lemma param_written:
  "only_field_written ''default'' (override_for images ParamPrefix (JMap param)) (JMap param)
     (case map_of param ''name'' of
        Some (JString name) \<Rightarrow>
          (case images (formKey ParamPrefix name) of
             Some img \<Rightarrow>
               if img = [] then JMap param
               else JMap (AList.update ''default'' (JString img) param)
           | None \<Rightarrow> JMap param)
      | _ \<Rightarrow> JMap param)"
  by (auto simp: only_field_written_def override_for_def delete_update_same
      split: option.splits jvalue.splits)

lemma replaceStepsImages_frame:
  "list_all is_map steps \<Longrightarrow>
   \<exists>steps'. replaceStepsImages steps images = Returns steps' \<and>
     list_all2 (\<lambda>s. only_field_written ''image'' (override_for images [] s) s) steps steps'"
proof (induction steps)
  case Nil
  then show ?case by simp
next
  case (Cons s steps)
  then obtain rest where rest: "replaceStepsImages steps images = Returns rest"
    "list_all2 (\<lambda>s. only_field_written ''image'' (override_for images [] s) s) steps rest"
    by auto
  from Cons.prems obtain m where m: "s = JMap m" by (cases s) (simp_all add: is_map_def)
  show ?case
    unfolding m using rest step_written [of images m]
    by (simp add: Let_def)
qed

lemma replaceParamsImage_frame:
  "list_all is_map params \<Longrightarrow>
   \<exists>params'. replaceParamsImage params images = Returns params' \<and>
     list_all2 (\<lambda>p. only_field_written ''default'' (override_for images ParamPrefix p) p)
       params params'"
proof (induction params)
  case Nil
  then show ?case by simp
next
  case (Cons p params)
  then obtain rest where rest: "replaceParamsImage params images = Returns rest"
    "list_all2 (\<lambda>p. only_field_written ''default'' (override_for images ParamPrefix p) p)
       params rest"
    by auto
  from Cons.prems obtain m where m: "p = JMap m" by (cases p) (simp_all add: is_map_def)
  show ?case
    unfolding m using rest param_written [of images m]
    by (simp add: Let_def)
qed

text \<open>\<open>NestedSlice\<close> and \<open>SetNestedField\<close> on a path of two fields.\<close>

lemma NestedSlice_found:
  "NestedSlice u [a, b] = (xs, True, e) \<longleftrightarrow>
     e = None \<and> (\<exists>sm. map_of u a = Some (JMap sm) \<and> map_of sm b = Some (JSlice xs))"
  by (auto simp: NestedSlice_def NestedFieldNoCopy_def split: option.splits jvalue.splits)

lemma SetNestedField_found:
  "map_of u a = Some (JMap sm) \<Longrightarrow>
   SetNestedField u v [a, b] = (AList.update a (JMap (AList.update b v sm)) u, None)"
  by (simp add: SetNestedField_def)

lemma NestedSlice_update_same:
  "NestedSlice (AList.update a (JMap (AList.update b (JSlice ys) sm)) u) [a, b] = (ys, True, None)"
  by (simp add: NestedSlice_def NestedFieldNoCopy_def update_conv')

lemma NestedSlice_update_other:
  "map_of u a = Some (JMap sm) \<Longrightarrow> b \<noteq> c \<Longrightarrow>
   NestedSlice (AList.update a (JMap (AList.update b v sm)) u) [a, c] = NestedSlice u [a, c]"
  by (simp add: NestedSlice_def NestedFieldNoCopy_def update_conv')

lemma spec_kept_steps:
  "map_of u ''spec'' = Some (JMap sm) \<Longrightarrow>
   spec_kept u (AList.update ''spec'' (JMap (AList.update ''steps'' v sm)) u)"
  by (simp add: spec_kept_def delete_update_same update_conv' delete_twist [of "''steps''"])

lemma spec_kept_params:
  "map_of u ''spec'' = Some (JMap sm) \<Longrightarrow>
   spec_kept u (AList.update ''spec'' (JMap (AList.update ''params'' v sm)) u)"
  by (simp add: spec_kept_def delete_update_same update_conv')

lemma spec_kept_trans: "spec_kept u v \<Longrightarrow> spec_kept v w \<Longrightarrow> spec_kept u w"
  by (auto simp: spec_kept_def split: option.splits jvalue.splits)


lemma slice_rewritten_refl:
  "list_all is_map (fst r) \<Longrightarrow> slice_rewritten field override r r"
  by (cases r) (simp add: slice_rewritten_def list_all2_only_field_written_refl)

lemma only_field_written_lookup:
  "only_field_written field override (JMap m) (JMap m') \<Longrightarrow> k \<noteq> field \<Longrightarrow>
   map_of m' k = map_of m k"
  using map_of_delete [of k field m'] map_of_delete [of k field m]
  by (simp add: only_field_written_def)

text \<open>
  C10. On a ClusterTask document in which the elements of \<^verbatim>\<open>spec.steps\<close> and of
  \<^verbatim>\<open>spec.params\<close> are mappings, the transformer returns (it does not panic), and
  between the document before and after: every step is a mapping that differs from the
  original in its \<^verbatim>\<open>image\<close> field at most, every param one that differs in its
  \<^verbatim>\<open>default\<close> field at most, and a step or param whose key has no entry in the
  table, or the empty string, is the original; outside \<^verbatim>\<open>spec.steps\<close> and
  \<^verbatim>\<open>spec.params\<close> the document is the original.
\<close>

theorem TaskImages_frame:
  assumes kind: "GetKind u = ''ClusterTask''"
    and steps: "list_all is_map (fst (NestedSlice u [''spec'', ''steps'']))"
    and params: "list_all is_map (fst (NestedSlice u [''spec'', ''params'']))"
  shows "\<exists>u' err. TaskImages images u = Returns (u', err) \<and> spec_kept u u' \<and>
     slice_rewritten ''image'' (override_for images [])
       (NestedSlice u [''spec'', ''steps'']) (NestedSlice u' [''spec'', ''steps'']) \<and>
     slice_rewritten ''default'' (override_for images ParamPrefix)
       (NestedSlice u [''spec'', ''params'']) (NestedSlice u' [''spec'', ''params''])"
proof -
  let ?S = "slice_rewritten ''image'' (override_for images [])"
  let ?P = "slice_rewritten ''default'' (override_for images ParamPrefix)"
  note same = spec_kept_refl [of u] slice_rewritten_refl [OF steps] slice_rewritten_refl [OF params]
  obtain xs f e where st: "NestedSlice u [''spec'', ''steps''] = (xs, f, e)"
    by (cases "NestedSlice u [''spec'', ''steps'']")
  show ?thesis
  proof (cases "e = None \<and> f")
    case False
    then have "TaskImages images u = Returns (u, e)"
      using kind st by (auto simp: TaskImages_def NestedSlice_def split: prod.splits)
    then show ?thesis using same by blast
  next
    case True
    then have st': "NestedSlice u [''spec'', ''steps''] = (xs, True, None)" using st by simp
    then obtain sm where sm: "map_of u ''spec'' = Some (JMap sm)"
      and sx: "map_of sm ''steps'' = Some (JSlice xs)"
      by (auto simp: NestedSlice_found)
    from steps st' obtain xs' where xs': "replaceStepsImages xs images = Returns xs'"
      and rx: "list_all2 (\<lambda>s. only_field_written ''image'' (override_for images [] s) s) xs xs'"
      using replaceStepsImages_frame [of xs images] by auto
    let ?sm1 = "AList.update ''steps'' (JSlice xs') sm"
    let ?u1 = "AList.update ''spec'' (JMap ?sm1) u"
    have set1: "SetNestedField u (JSlice xs') [''spec'', ''steps''] = (?u1, None)"
      by (rule SetNestedField_found [OF sm])
    have k1: "spec_kept u ?u1" by (rule spec_kept_steps [OF sm])
    have s1: "NestedSlice ?u1 [''spec'', ''steps''] = (xs', True, None)"
      by (rule NestedSlice_update_same)
    have p1: "NestedSlice ?u1 [''spec'', ''params''] = NestedSlice u [''spec'', ''params'']"
      by (rule NestedSlice_update_other [OF sm]) simp
    have S1: "?S (NestedSlice u [''spec'', ''steps'']) (NestedSlice ?u1 [''spec'', ''steps''])"
      using rx unfolding st' s1 slice_rewritten_def by simp
    have P1: "?P (NestedSlice u [''spec'', ''params'']) (NestedSlice ?u1 [''spec'', ''params''])"
      unfolding p1 by (rule slice_rewritten_refl [OF params])
    obtain ps g d where pa: "NestedSlice u [''spec'', ''params''] = (ps, g, d)"
      by (cases "NestedSlice u [''spec'', ''params'']")
    show ?thesis
    proof (cases "d = None \<and> g")
      case False
      then have "TaskImages images u = Returns (?u1, d)"
        using kind st' xs' set1 p1 pa by (auto simp: TaskImages_def)
      then show ?thesis using k1 S1 P1 by blast
    next
      case True
      then have pa': "NestedSlice u [''spec'', ''params''] = (ps, True, None)" using pa by simp
      have sm1: "map_of ?u1 ''spec'' = Some (JMap ?sm1)" by (simp add: update_conv')
      from params pa' obtain ps' where ps': "replaceParamsImage ps images = Returns ps'"
        and rp: "list_all2 (\<lambda>p. only_field_written ''default'' (override_for images ParamPrefix p) p)
           ps ps'"
        using replaceParamsImage_frame [of ps images] by auto
      let ?u2 = "AList.update ''spec'' (JMap (AList.update ''params'' (JSlice ps') ?sm1)) ?u1"
      have set2: "SetNestedField ?u1 (JSlice ps') [''spec'', ''params''] = (?u2, None)"
        by (rule SetNestedField_found [OF sm1])
      have run: "TaskImages images u = Returns (?u2, None)"
        using kind st' xs' set1 p1 pa' ps' set2 by (simp add: TaskImages_def)
      have k2: "spec_kept u ?u2"
        by (rule spec_kept_trans [OF k1 spec_kept_params [OF sm1]])
      have s2: "NestedSlice ?u2 [''spec'', ''steps''] = (xs', True, None)"
        using NestedSlice_update_other [OF sm1, of "''params''" "''steps''" "JSlice ps'"] s1
        by simp
      have p2: "NestedSlice ?u2 [''spec'', ''params''] = (ps', True, None)"
        by (rule NestedSlice_update_same)
      have S2: "?S (NestedSlice u [''spec'', ''steps'']) (NestedSlice ?u2 [''spec'', ''steps''])"
        using rx unfolding st' s2 slice_rewritten_def by simp
      have P2: "?P (NestedSlice u [''spec'', ''params'']) (NestedSlice ?u2 [''spec'', ''params''])"
        using rp unfolding pa' p2 slice_rewritten_def by simp
      show ?thesis using run k2 S2 P2 by blast
    qed
  qed
qed

theorem TaskImages_frame_witness:
  "GetKind example_task = ''ClusterTask''
   \<and> list_all is_map (fst (NestedSlice example_task [''spec'', ''steps'']))
   \<and> list_all is_map (fst (NestedSlice example_task [''spec'', ''params'']))
   \<and> TaskImages example_images example_task = Returns (example_task_rewritten, None)
   \<and> spec_kept example_task example_task_rewritten
   \<and> slice_rewritten ''image'' (override_for example_images [])
        (NestedSlice example_task [''spec'', ''steps''])
        (NestedSlice example_task_rewritten [''spec'', ''steps''])
   \<and> slice_rewritten ''default'' (override_for example_images ParamPrefix)
        (NestedSlice example_task [''spec'', ''params''])
        (NestedSlice example_task_rewritten [''spec'', ''params''])"
proof -
  have k: "GetKind example_task = ''ClusterTask''"
    by (simp add: example_task_def accessor_simps)
  have s: "list_all is_map (fst (NestedSlice example_task [''spec'', ''steps'']))"
    by (simp add: example_task_def accessor_simps is_map_def)
  have p: "list_all is_map (fst (NestedSlice example_task [''spec'', ''params'']))"
    by (simp add: example_task_def accessor_simps is_map_def)
  have run: "TaskImages example_images example_task = Returns (example_task_rewritten, None)"
    by (simp add: TaskImages_def example_task_def example_task_rewritten_def example_images_def
        accessor_simps key_simps)
  from TaskImages_frame [OF k s p, of example_images] run
  have "spec_kept example_task example_task_rewritten \<and>
     slice_rewritten ''image'' (override_for example_images [])
        (NestedSlice example_task [''spec'', ''steps''])
        (NestedSlice example_task_rewritten [''spec'', ''steps'']) \<and>
     slice_rewritten ''default'' (override_for example_images ParamPrefix)
        (NestedSlice example_task [''spec'', ''params''])
        (NestedSlice example_task_rewritten [''spec'', ''params''])"
    by auto
  then show ?thesis using k s p run by blast
qed

subsection \<open>Applying the pipeline twice\<close>

























lemma GetKind_write_through:
  "field \<noteq> ''kind'' \<Longrightarrow> GetKind (write_through obj (field # flds) new) = GetKind obj"
  by (simp add: write_through_def GetKind_def NestedString_def NestedFieldNoCopy_def update_conv'
      split: option.splits)


lemma webhook_kind:
  "injectNamespaceCRDWebhookClientConfig targetNamespace u = Returns (v, e) \<Longrightarrow>
   GetKind v = GetKind u"
  by (auto simp: injectNamespaceCRDWebhookClientConfig_def Let_def webhook_service_path_def
      GetKind_write_through split: if_splits prod.splits jvalue.splits)






















end
